theory Spec2Isabelle
  imports Main "HOL-Library.Word"
begin

section \<open>Data model (types.ts, lockstep.ts)\<close>

text \<open>
  A \<open>Uint8Array\<close> is a list of bytes. JavaScript numbers that hold ticks, axis values,
  button bitfields and timestamps are integer valued; they are modelled as \<open>int\<close>, and
  the conversions that \<open>DataView\<close> applies when a number is stored in a fixed-width slot
  are written out. The tick cursor starts at the tick of the core and grows by one per
  step, a range in which the arithmetic of JavaScript numbers is exact.
\<close>

type_synonym byte = "8 word"
type_synonym Uint8Array = "byte list"

datatype Side = Left | Right

record Input =
  axis_y :: int
  buttons :: int

record InputPair =
  ip_tick :: int
  ip_a :: Input
  ip_b :: Input

definition WIRE_MSG_INPUT_PAIR :: int where "WIRE_MSG_INPUT_PAIR = 1"
definition WIRE_MSG_SNAPSHOT :: int where "WIRE_MSG_SNAPSHOT = 2"
definition WIRE_MSG_PING :: int where "WIRE_MSG_PING = 3"

section \<open>DataView accessors\<close>

text \<open>
  \<open>setUint8\<close> and \<open>setInt8\<close> store the number modulo \<open>2^8\<close>; \<open>setUint32\<close> with the
  little-endian flag stores the number modulo \<open>2^32\<close>, least significant byte first.
  \<open>getInt8\<close> reads a byte as two's complement. A getter throws a \<open>RangeError\<close> when
  the bytes it reads do not lie inside the view.
\<close>

datatype DecodeError =
    EmptyMessage
  | InvalidInputPairLength
  | InvalidPingLength
  | UnknownMessageType int
  | RangeError

definition setUint8 :: "int \<Rightarrow> byte" where
  "setUint8 v = word_of_int v"

definition setInt8 :: "int \<Rightarrow> byte" where
  "setInt8 v = word_of_int v"

definition setUint32 :: "int \<Rightarrow> Uint8Array" where
  "setUint32 v =
     (let u = v mod 2 ^ 32
      in [word_of_int u, word_of_int (u div 256),
          word_of_int (u div 65536), word_of_int (u div 16777216)])"

definition getUint8 :: "Uint8Array \<Rightarrow> nat \<Rightarrow> DecodeError + int" where
  "getUint8 bytes i =
     (if i < length bytes then Inr (uint (bytes ! i)) else Inl RangeError)"

definition getInt8 :: "Uint8Array \<Rightarrow> nat \<Rightarrow> DecodeError + int" where
  "getInt8 bytes i =
     (if i < length bytes then Inr (sint (bytes ! i)) else Inl RangeError)"

definition getUint32 :: "Uint8Array \<Rightarrow> nat \<Rightarrow> DecodeError + int" where
  "getUint32 bytes i =
     (if i + 4 \<le> length bytes
      then Inr (uint (bytes ! i) + 256 * uint (bytes ! (i + 1))
             + 65536 * uint (bytes ! (i + 2)) + 16777216 * uint (bytes ! (i + 3)))
      else Inl RangeError)"

text \<open>Sequencing of steps that may throw: the first exception ends the computation.\<close>

definition and_then :: "'e + 'a \<Rightarrow> ('a \<Rightarrow> 'e + 'b) \<Rightarrow> 'e + 'b" where
  "and_then r f = (case r of Inl err \<Rightarrow> Inl err | Inr v \<Rightarrow> f v)"

section \<open>Wire codec (class WireMsg)\<close>

datatype WireMsg =
    MsgInputPair InputPair
  | MsgSnapshot Uint8Array
  | MsgPing int

definition encodeInputPair :: "InputPair \<Rightarrow> Uint8Array" where
  "encodeInputPair inputPair =
     setUint8 WIRE_MSG_INPUT_PAIR
       # setUint32 (ip_tick inputPair)
       @ [setInt8 (axis_y (ip_a inputPair)), setUint8 (buttons (ip_a inputPair)),
          setInt8 (axis_y (ip_b inputPair)), setUint8 (buttons (ip_b inputPair))]"

definition encodeSnapshot :: "Uint8Array \<Rightarrow> Uint8Array" where
  "encodeSnapshot snapshotBytes = setUint8 WIRE_MSG_SNAPSHOT # snapshotBytes"

definition encodePing :: "int \<Rightarrow> Uint8Array" where
  "encodePing timestamp = setUint8 WIRE_MSG_PING # setUint32 timestamp"

definition decode :: "Uint8Array \<Rightarrow> DecodeError + WireMsg" where
  "decode bytes =
     (if length bytes = 0 then Inl EmptyMessage
      else
        and_then (getUint8 bytes 0) (\<lambda>msgType.
        if msgType = WIRE_MSG_INPUT_PAIR then
          (if length bytes \<noteq> 9 then Inl InvalidInputPairLength
           else
             and_then (getUint32 bytes 1) (\<lambda>tickField.
             and_then (getInt8 bytes 5) (\<lambda>aAxis.
             and_then (getUint8 bytes 6) (\<lambda>aButtons.
             and_then (getInt8 bytes 7) (\<lambda>bAxis.
             and_then (getUint8 bytes 8) (\<lambda>bButtons.
               Inr (MsgInputPair
                 \<lparr>ip_tick = tickField,
                  ip_a = \<lparr>axis_y = aAxis, buttons = aButtons\<rparr>,
                  ip_b = \<lparr>axis_y = bAxis, buttons = bButtons\<rparr>\<rparr>)))))))
        else if msgType = WIRE_MSG_SNAPSHOT then
          Inr (MsgSnapshot (drop 1 bytes))
        else if msgType = WIRE_MSG_PING then
          (if length bytes \<noteq> 5 then Inl InvalidPingLength
           else and_then (getUint32 bytes 1) (\<lambda>timestamp. Inr (MsgPing timestamp)))
        else Inl (UnknownMessageType msgType)))"

text \<open>
  The buffers that \<open>decode\<close> accepts, written as a predicate on the bytes: tag
  \<open>0x01\<close> with 9 bytes, tag \<open>0x02\<close> with any payload, tag \<open>0x03\<close> with 5 bytes.
  This predicate follows the wire table of the specification, not the code; it is what
  \<open>decode\<close> is compared with.
\<close>

definition spec_well_formed :: "Uint8Array \<Rightarrow> bool" where
  "spec_well_formed bytes =
     (case bytes of
        [] \<Rightarrow> False
      | tag # payload \<Rightarrow>
          (tag = 1 \<and> length payload = 8) \<or> tag = 2 \<or> (tag = 3 \<and> length payload = 4))"

text \<open>
  The value ranges of the wire fields: a tick is an unsigned 32-bit integer, an axis
  value lies in \<open>[-127, 127]\<close> (the comment on \<open>Input.axis_y\<close> in types.ts), a button
  bitfield is one unsigned byte.
\<close>

definition valid_Input :: "Input \<Rightarrow> bool" where
  "valid_Input i =
     (- 127 \<le> axis_y i \<and> axis_y i \<le> 127 \<and> 0 \<le> buttons i \<and> buttons i \<le> 255)"

definition valid_u32 :: "int \<Rightarrow> bool" where
  "valid_u32 n = (0 \<le> n \<and> n < 2 ^ 32)"

definition valid_InputPair :: "InputPair \<Rightarrow> bool" where
  "valid_InputPair p = (valid_u32 (ip_tick p) \<and> valid_Input (ip_a p) \<and> valid_Input (ip_b p))"

section \<open>Collaborators of the lockstep engine\<close>

text \<open>
  \<open>CoreAdapter\<close> is an interface; the simulation behind it is a parameter of the
  model. A core is a value of type \<open>'c\<close>, and each method of the interface is a function
  on it that returns the result together with the core it leaves behind. \<open>step\<close>
  returns \<open>None\<close> where the JavaScript result is \<open>undefined\<close> (or any other falsy
  value). \<open>step\<close> and the three reads \<open>viewJson\<close>, \<open>snapshotBytes\<close> and
  \<open>getCurrentTick\<close> return, as the interface declares them. \<open>restoreBytes\<close> parses
  bytes that arrive from the network and is called inside a handler: it either returns,
  leaving the restored core, or throws, leaving some core behind.
\<close>

datatype 'c Thrown = Thrown 'c

record ('c, 'e) CoreAdapter =
  step :: "int \<Rightarrow> int \<Rightarrow> int \<Rightarrow> int \<Rightarrow> int \<Rightarrow> 'c \<Rightarrow> 'e option \<times> 'c"
  viewJson :: "'c \<Rightarrow> string"
  snapshotBytes :: "'c \<Rightarrow> Uint8Array"
  restoreBytes :: "Uint8Array \<Rightarrow> 'c \<Rightarrow> 'c Thrown + 'c"
  getCurrentTick :: "'c \<Rightarrow> int"

datatype 'e LockstepEvent =
    game_advanced int "'e list"
  | peer_disconnected
  | pong_received int
  | snapshot_received int

datatype LockstepError = TransportNotConnected | LockstepNotRunning

section \<open>Lockstep engine (class Lockstep)\<close>

text \<open>
  The fields of the class, with the two collaborators made explicit: \<open>core\<close> is the
  current value of the simulation behind the adapter, \<open>sendCalls\<close> lists the buffers
  handed to \<open>transport.send\<close> so far and \<open>stepCalls\<close> the argument tuples of the calls
  of \<open>core.step\<close> so far, both oldest first. An exception of \<open>transport.send\<close> is
  caught and logged at every call site, so the outcome of a send never reaches the
  engine's state.
\<close>

record 'c Lockstep =
  core :: 'c
  currentTick :: int
  localSide :: Side
  isRunning :: bool
  localInputBuffer :: "int \<rightharpoonup> Input"
  remoteInputBuffer :: "int \<rightharpoonup> Input"
  sendCalls :: "Uint8Array list"
  stepCalls :: "(int \<times> int \<times> int \<times> int \<times> int) list"

definition transport_send :: "Uint8Array \<Rightarrow> 'c Lockstep \<Rightarrow> 'c Lockstep" where
  "transport_send bytes s = s\<lparr>sendCalls := sendCalls s @ [bytes]\<rparr>"

definition new_Lockstep :: "('c, 'e) CoreAdapter \<Rightarrow> 'c \<Rightarrow> Side \<Rightarrow> 'c Lockstep" where
  "new_Lockstep ops gameAdapter side =
     \<lparr>core = gameAdapter,
      currentTick = getCurrentTick ops gameAdapter,
      localSide = side,
      isRunning = False,
      localInputBuffer = Map.empty,
      remoteInputBuffer = Map.empty,
      sendCalls = [],
      stepCalls = []\<rparr>"

text \<open>\<open>start\<close> takes the answer of \<open>transport.isOpen()\<close> as an argument.\<close>

definition start ::
  "('c, 'e) CoreAdapter \<Rightarrow> 'c Lockstep \<Rightarrow> bool \<Rightarrow> LockstepError + 'c Lockstep" where
  "start ops s transportIsOpen =
     (if \<not> transportIsOpen then Inl TransportNotConnected
      else Inr (s\<lparr>isRunning := True,
                 currentTick := getCurrentTick ops (core s),
                 localInputBuffer := Map.empty,
                 remoteInputBuffer := Map.empty\<rparr>))"

definition stop :: "'c Lockstep \<Rightarrow> 'c Lockstep" where
  "stop s = s\<lparr>isRunning := False,
              localInputBuffer := Map.empty,
              remoteInputBuffer := Map.empty\<rparr>"

definition onLocalInput :: "'c Lockstep \<Rightarrow> int \<Rightarrow> int \<Rightarrow> LockstepError + 'c Lockstep" where
  "onLocalInput s axisY btns =
     (if \<not> isRunning s then Inl LockstepNotRunning
      else
        let input = \<lparr>axis_y = axisY, buttons = btns\<rparr>;
            s1 = s\<lparr>localInputBuffer := (localInputBuffer s)(currentTick s \<mapsto> input)\<rparr>;
            remoteInput = \<lparr>axis_y = 0, buttons = 0\<rparr>;
            inputPair = \<lparr>ip_tick = currentTick s1,
                         ip_a = (if localSide s1 = Left then input else remoteInput),
                         ip_b = (if localSide s1 = Left then remoteInput else input)\<rparr>;
            wireMsg = encodeInputPair inputPair
        in Inr (transport_send wireMsg s1))"

text \<open>
  \<open>onNetMessage\<close> is a guard followed by a \<open>try\<close> block whose \<open>catch\<close> logs the
  error and returns no events. \<open>onNetMessage_try\<close> is the \<open>try\<close> block. Two calls
  in it may throw: \<open>decode\<close>, before any field is written, and \<open>core.restoreBytes\<close>
  in the snapshot branch, before the tick cursor is written. An exception is returned
  together with the state at the moment it was thrown, which is the state the \<open>catch\<close>
  leaves.
\<close>

datatype TryError = DecodeFailed DecodeError | RestoreFailed

definition onNetMessage_try ::
  "('c, 'e) CoreAdapter \<Rightarrow> 'c Lockstep \<Rightarrow> Uint8Array
     \<Rightarrow> (TryError \<times> 'c Lockstep) + ('e LockstepEvent list \<times> 'c Lockstep)" where
  "onNetMessage_try ops s bytes =
     (case decode bytes of
        Inl err \<Rightarrow> Inl (DecodeFailed err, s)
      | Inr (MsgInputPair inputPair) \<Rightarrow>
          let remoteInput = (if localSide s = Left then ip_b inputPair else ip_a inputPair)
          in Inr ([], s\<lparr>remoteInputBuffer :=
                          (remoteInputBuffer s)(ip_tick inputPair \<mapsto> remoteInput)\<rparr>)
      | Inr (MsgSnapshot data) \<Rightarrow>
          (case restoreBytes ops data (core s) of
             Inl (Thrown left) \<Rightarrow> Inl (RestoreFailed, s\<lparr>core := left\<rparr>)
           | Inr restored \<Rightarrow>
               let s1 = s\<lparr>core := restored\<rparr>;
                   s2 = s1\<lparr>currentTick := getCurrentTick ops (core s1)\<rparr>
               in Inr ([snapshot_received (currentTick s2)], s2))
      | Inr (MsgPing timestamp) \<Rightarrow>
          let pong = encodePing timestamp
          in Inr ([], transport_send pong s))"

definition onNetMessage ::
  "('c, 'e) CoreAdapter \<Rightarrow> 'c Lockstep \<Rightarrow> Uint8Array
     \<Rightarrow> 'e LockstepEvent list \<times> 'c Lockstep" where
  "onNetMessage ops s bytes =
     (if \<not> isRunning s then ([], s)
      else case onNetMessage_try ops s bytes of
             Inl (err, caught) \<Rightarrow> ([], caught)
           | Inr result \<Rightarrow> result)"

text \<open>
  \<open>tick\<close> returns the view (the JSON text of \<open>core.viewJson()\<close>, which the caller
  parses) and the events, together with the new state. A buffered input is always an
  object, so \<open>localInput && remoteInput\<close> holds exactly when both lookups succeed.
\<close>

definition tick ::
  "('c, 'e) CoreAdapter \<Rightarrow> 'c Lockstep
     \<Rightarrow> (string \<times> 'e LockstepEvent list) \<times> 'c Lockstep" where
  "tick ops s =
     (if \<not> isRunning s then ((viewJson ops (core s), []), s)
      else
        case (localInputBuffer s (currentTick s), remoteInputBuffer s (currentTick s)) of
          (Some localInput, Some remoteInput) \<Rightarrow>
            let aInput = (if localSide s = Left then localInput else remoteInput);
                bInput = (if localSide s = Left then remoteInput else localInput);
                args = (currentTick s, axis_y aInput, buttons aInput,
                        axis_y bInput, buttons bInput);
                (gameEvent, stepped) =
                  step ops (currentTick s) (axis_y aInput) (buttons aInput)
                    (axis_y bInput) (buttons bInput) (core s);
                s1 = s\<lparr>core := stepped, stepCalls := stepCalls s @ [args]\<rparr>;
                s2 = s1\<lparr>localInputBuffer := (localInputBuffer s1)(currentTick s1 := None)\<rparr>;
                s3 = s2\<lparr>remoteInputBuffer := (remoteInputBuffer s2)(currentTick s2 := None)\<rparr>;
                s4 = s3\<lparr>currentTick := currentTick s3 + 1\<rparr>;
                events = (case gameEvent of
                            Some ev \<Rightarrow> [game_advanced (currentTick s4 - 1) [ev]]
                          | None \<Rightarrow> [])
            in ((viewJson ops (core s4), events), s4)
        | _ \<Rightarrow> ((viewJson ops (core s), []), s))"

definition requestSnapshot ::
  "('c, 'e) CoreAdapter \<Rightarrow> 'c Lockstep \<Rightarrow> LockstepError + 'c Lockstep" where
  "requestSnapshot ops s =
     (if \<not> isRunning s then Inl LockstepNotRunning
      else
        let bytes = snapshotBytes ops (core s);
            wireMsg = encodeSnapshot bytes
        in Inr (transport_send wireMsg s))"

text \<open>\<open>ping\<close> takes the value of \<open>Date.now()\<close> as an argument.\<close>

definition ping :: "'c Lockstep \<Rightarrow> int \<Rightarrow> LockstepError + 'c Lockstep" where
  "ping s timestamp =
     (if \<not> isRunning s then Inl LockstepNotRunning
      else Inr (transport_send (encodePing timestamp) s))"

section \<open>Histories of calls\<close>

text \<open>
  A reachable state is what a sequence of calls of the public methods, and of deliveries
  by the transport, leaves behind, starting from the constructor. A call that throws
  leaves the fields as they were.
\<close>

datatype Call =
    CallStart bool
  | CallStop
  | CallOnLocalInput int int
  | CallOnNetMessage Uint8Array
  | CallTick
  | CallRequestSnapshot
  | CallPing int

definition keep_on_error :: "'c Lockstep \<Rightarrow> LockstepError + 'c Lockstep \<Rightarrow> 'c Lockstep" where
  "keep_on_error s r = (case r of Inl err \<Rightarrow> s | Inr s1 \<Rightarrow> s1)"

fun apply_call :: "('c, 'e) CoreAdapter \<Rightarrow> 'c Lockstep \<Rightarrow> Call \<Rightarrow> 'c Lockstep" where
  "apply_call ops s (CallStart transportIsOpen) = keep_on_error s (start ops s transportIsOpen)"
| "apply_call ops s CallStop = stop s"
| "apply_call ops s (CallOnLocalInput axisY btns) = keep_on_error s (onLocalInput s axisY btns)"
| "apply_call ops s (CallOnNetMessage bytes) = snd (onNetMessage ops s bytes)"
| "apply_call ops s CallTick = snd (tick ops s)"
| "apply_call ops s CallRequestSnapshot = keep_on_error s (requestSnapshot ops s)"
| "apply_call ops s (CallPing timestamp) = keep_on_error s (ping s timestamp)"

fun run :: "('c, 'e) CoreAdapter \<Rightarrow> 'c Lockstep \<Rightarrow> Call list \<Rightarrow> 'c Lockstep" where
  "run ops s [] = s"
| "run ops s (c # cs) = run ops (apply_call ops s c) cs"

text \<open>\<open>tick_repeat ops n s\<close> is the state after \<open>n\<close> successive calls of \<open>tick\<close>.\<close>

fun tick_repeat :: "('c, 'e) CoreAdapter \<Rightarrow> nat \<Rightarrow> 'c Lockstep \<Rightarrow> 'c Lockstep" where
  "tick_repeat ops 0 s = s"
| "tick_repeat ops (Suc n) s = tick_repeat ops n (snd (tick ops s))"

text \<open>
  The arguments with which \<open>tick\<close> calls \<open>core.step\<close> for tick \<open>t\<close>, read from the
  two buffers of \<open>s\<close>: side \<open>a\<close> is the left player, side \<open>b\<close> the right one.
\<close>

definition stepArgs :: "'c Lockstep \<Rightarrow> int \<Rightarrow> int \<times> int \<times> int \<times> int \<times> int" where
  "stepArgs s t =
     (let localInput = the (localInputBuffer s t);
          remoteInput = the (remoteInputBuffer s t);
          aInput = (if localSide s = Left then localInput else remoteInput);
          bInput = (if localSide s = Left then remoteInput else localInput)
      in (t, axis_y aInput, buttons aInput, axis_y bInput, buttons bInput))"

text \<open>The core after a list of \<open>step\<close> calls, given by their arguments in order.\<close>

fun replay ::
  "('c, 'e) CoreAdapter \<Rightarrow> (int \<times> int \<times> int \<times> int \<times> int) list \<Rightarrow> 'c \<Rightarrow> 'c" where
  "replay ops [] g = g"
| "replay ops ((t, aAxis, aBtn, bAxis, bBtn) # rest) g =
     replay ops rest (snd (step ops t aAxis aBtn bAxis bBtn g))"

text \<open>
  A small core for concrete runs: the core is its tick counter, \<open>step\<close> adds one and
  emits no event, and \<open>restoreBytes\<close> sets the counter to the length of the snapshot.
  \<open>strict_core\<close> differs in \<open>restoreBytes\<close> only: a snapshot is one byte holding the
  tick, and any other payload makes it throw, leaving the core as it was.
\<close>

definition counter_core :: "(int, unit) CoreAdapter" where
  "counter_core =
     \<lparr>step = (\<lambda>t aAxis aBtn bAxis bBtn g. (None, g + 1)),
      viewJson = (\<lambda>g. ''{}''),
      snapshotBytes = (\<lambda>g. replicate (nat g) 0),
      restoreBytes = (\<lambda>bytes g. Inr (int (length bytes))),
      getCurrentTick = (\<lambda>g. g)\<rparr>"


text \<open>
  A history that leaves two ticks to catch up on: the local inputs for ticks 0 and 1 are
  recorded around a snapshot that moves the cursor to 1, the remote inputs for ticks 1
  and 0 arrive in that order, and a second snapshot moves the cursor back to 0.
\<close>

definition catch_up_history :: "Call list" where
  "catch_up_history =
     [CallStart True,
      CallOnLocalInput 5 1,
      CallOnNetMessage [2, 9],
      CallOnLocalInput 6 0,
      CallOnNetMessage [1, 1, 0, 0, 0, 0, 0, 4, 1],
      CallOnNetMessage [1, 0, 0, 0, 0, 0, 0, 3, 2],
      CallOnNetMessage [2]]"

text \<open>
  The invariant of the engine that the buffers are empty whenever it is not running:
  the constructor and \<open>stop\<close> leave them empty, and nothing writes to them before
  \<open>start\<close>.
\<close>

definition idle_buffers_empty :: "'c Lockstep \<Rightarrow> bool" where
  "idle_buffers_empty s =
     (isRunning s \<or> (localInputBuffer s = Map.empty \<and> remoteInputBuffer s = Map.empty))"

section \<open>Properties of the wire codec\<close>

lemma split_u32_bytes:
  fixes u :: int
  assumes "0 \<le> u" and "u < 4294967296"
  shows "u mod 256 + 256 * (u div 256 mod 256) + 65536 * (u div 65536 mod 256)
       + 16777216 * (u div 16777216 mod 256) = u"
proof -
  define q1 where "q1 = u div 256"
  define q2 where "q2 = q1 div 256"
  define q3 where "q3 = q2 div 256"
  have a: "u div 65536 = q2" by (simp add: q1_def q2_def div_mult2_eq)
  have b: "u div 16777216 = q3" by (simp add: q1_def q2_def q3_def div_mult2_eq)
  have e0: "u = u mod 256 + 256 * q1" by (simp add: q1_def)
  have e1: "q1 = q1 mod 256 + 256 * q2" by (simp add: q2_def)
  have e2: "q2 = q2 mod 256 + 256 * q3" by (simp add: q3_def)
  have "0 \<le> q3" "q3 < 256" using assms unfolding b [symmetric] by simp_all
  then have e3: "q3 mod 256 = q3" by simp
  show ?thesis
    unfolding a b e3 q1_def [symmetric] using e0 e1 e2 by linarith
qed

lemma uint32_of_bytes:
  fixes u :: int
  assumes "0 \<le> u" and "u < 4294967296"
  shows "uint (word_of_int u :: byte) + 256 * uint (word_of_int (u div 256) :: byte)
       + 65536 * uint (word_of_int (u div 65536) :: byte)
       + 16777216 * uint (word_of_int (u div 16777216) :: byte) = u"
proof -
  have b: "\<And>x. uint (word_of_int x :: byte) = x mod 256"
    by (simp add: uint_word_of_int)
  show ?thesis unfolding b by (rule split_u32_bytes [OF assms])
qed

lemma sint_int8: "- 128 \<le> v \<Longrightarrow> v \<le> 127 \<Longrightarrow> sint (word_of_int v :: byte) = v"
  by (simp add: sint_sbintrunc' signed_take_bit_int_eq_self)

lemma uint_uint8: "0 \<le> v \<Longrightarrow> v \<le> 255 \<Longrightarrow> uint (word_of_int v :: byte) = v"
  by (simp add: uint_word_of_int)

lemma tag_cases:
  fixes b :: byte
  shows "uint b = 1 \<longleftrightarrow> b = 1" "uint b = 2 \<longleftrightarrow> b = 2" "uint b = 3 \<longleftrightarrow> b = 3"
  by (simp_all add: word_uint_eq_iff)

lemma decode_Nil: "decode [] = Inl EmptyMessage"
  by (simp add: decode_def)

lemma decode_Cons:
  "decode (tag # payload) =
     (if tag = 1 then
        (if length payload \<noteq> 8 then Inl InvalidInputPairLength
         else Inr (MsgInputPair
             \<lparr>ip_tick = uint (payload ! 0) + 256 * uint (payload ! 1)
                         + 65536 * uint (payload ! 2) + 16777216 * uint (payload ! 3),
              ip_a = \<lparr>axis_y = sint (payload ! 4), buttons = uint (payload ! 5)\<rparr>,
              ip_b = \<lparr>axis_y = sint (payload ! 6), buttons = uint (payload ! 7)\<rparr>\<rparr>))
      else if tag = 2 then Inr (MsgSnapshot payload)
      else if tag = 3 then
        (if length payload \<noteq> 4 then Inl InvalidPingLength
         else Inr (MsgPing (uint (payload ! 0) + 256 * uint (payload ! 1)
                         + 65536 * uint (payload ! 2) + 16777216 * uint (payload ! 3))))
      else Inl (UnknownMessageType (uint tag)))"
  by (simp add: decode_def and_then_def getUint8_def getInt8_def getUint32_def tag_cases
        WIRE_MSG_INPUT_PAIR_def WIRE_MSG_SNAPSHOT_def WIRE_MSG_PING_def numeral_2_eq_2)

lemma decode_encodeInputPair:
  assumes "valid_InputPair p"
  shows "decode (encodeInputPair p) = Inr (MsgInputPair p)"
proof -
  have v: "0 \<le> ip_tick p" "ip_tick p < 4294967296"
    "- 128 \<le> axis_y (ip_a p)" "axis_y (ip_a p) \<le> 127"
    "0 \<le> buttons (ip_a p)" "buttons (ip_a p) \<le> 255"
    "- 128 \<le> axis_y (ip_b p)" "axis_y (ip_b p) \<le> 127"
    "0 \<le> buttons (ip_b p)" "buttons (ip_b p) \<le> 255"
    using assms by (simp_all add: valid_InputPair_def valid_Input_def valid_u32_def)
  have m: "ip_tick p mod 4294967296 = ip_tick p" using v(1,2) by simp
  have enc: "encodeInputPair p =
      1 # [word_of_int (ip_tick p), word_of_int (ip_tick p div 256),
           word_of_int (ip_tick p div 65536), word_of_int (ip_tick p div 16777216),
           word_of_int (axis_y (ip_a p)), word_of_int (buttons (ip_a p)),
           word_of_int (axis_y (ip_b p)), word_of_int (buttons (ip_b p))]"
    by (simp add: encodeInputPair_def setUint32_def setUint8_def setInt8_def
          WIRE_MSG_INPUT_PAIR_def m Let_def)
  have "\<lparr>ip_tick = ip_tick p,
         ip_a = \<lparr>axis_y = axis_y (ip_a p), buttons = buttons (ip_a p)\<rparr>,
         ip_b = \<lparr>axis_y = axis_y (ip_b p), buttons = buttons (ip_b p)\<rparr>\<rparr> = p"
    by simp
  then show ?thesis
    unfolding enc decode_Cons
    by (simp add: uint32_of_bytes [OF v(1,2)] sint_int8 [OF v(3,4)] uint_uint8 [OF v(5,6)]
          sint_int8 [OF v(7,8)] uint_uint8 [OF v(9,10)])
qed

lemma decode_encodePing:
  assumes "valid_u32 t"
  shows "decode (encodePing t) = Inr (MsgPing t)"
proof -
  have v: "0 \<le> t" "t < 4294967296" using assms by (simp_all add: valid_u32_def)
  have m: "t mod 4294967296 = t" using v by simp
  have enc: "encodePing t =
      3 # [word_of_int t, word_of_int (t div 256),
           word_of_int (t div 65536), word_of_int (t div 16777216)]"
    by (simp add: encodePing_def setUint32_def setUint8_def WIRE_MSG_PING_def m Let_def)
  show ?thesis
    unfolding enc decode_Cons by (simp add: uint32_of_bytes [OF v])
qed

lemma decode_encodeSnapshot: "decode (encodeSnapshot snap) = Inr (MsgSnapshot snap)"
  by (simp add: encodeSnapshot_def decode_Cons setUint8_def WIRE_MSG_SNAPSHOT_def)

text \<open>
  C3. The codec is symmetric. Decoding the encoding of an input pair whose tick is an
  unsigned 32-bit integer, whose axis values lie in \<open>[-127, 127]\<close> and whose button bytes
  lie in \<open>[0, 255]\<close> gives an input-pair message with the same tick and the same two
  inputs; decoding the encoding of a ping with an unsigned 32-bit timestamp gives a ping
  with that timestamp; decoding the encoding of a snapshot gives a snapshot with the same
  payload bytes, for every byte sequence.
\<close>

theorem codec_round_trip:
  "(valid_InputPair p \<longrightarrow> decode (encodeInputPair p) = Inr (MsgInputPair p))
 \<and> (valid_u32 t \<longrightarrow> decode (encodePing t) = Inr (MsgPing t))
 \<and> decode (encodeSnapshot snap) = Inr (MsgSnapshot snap)"
  by (simp add: decode_encodeInputPair decode_encodePing decode_encodeSnapshot)

theorem codec_round_trip_witness:
  "valid_InputPair \<lparr>ip_tick = 4294967295,
      ip_a = \<lparr>axis_y = - 127, buttons = 255\<rparr>, ip_b = \<lparr>axis_y = 127, buttons = 0\<rparr>\<rparr>
 \<and> decode (encodeInputPair \<lparr>ip_tick = 4294967295,
      ip_a = \<lparr>axis_y = - 127, buttons = 255\<rparr>, ip_b = \<lparr>axis_y = 127, buttons = 0\<rparr>\<rparr>) =
     Inr (MsgInputPair \<lparr>ip_tick = 4294967295,
       ip_a = \<lparr>axis_y = - 127, buttons = 255\<rparr>, ip_b = \<lparr>axis_y = 127, buttons = 0\<rparr>\<rparr>)
 \<and> valid_u32 305419896
 \<and> decode (encodePing 305419896) = Inr (MsgPing 305419896)
 \<and> decode (encodeSnapshot [0, 1, 2]) = Inr (MsgSnapshot [0, 1, 2])"
  using codec_round_trip [of "\<lparr>ip_tick = 4294967295,
      ip_a = \<lparr>axis_y = - 127, buttons = 255\<rparr>, ip_b = \<lparr>axis_y = 127, buttons = 0\<rparr>\<rparr>"
      305419896 "[0, 1, 2]"]
  by (simp add: valid_InputPair_def valid_Input_def valid_u32_def)

text \<open>
  C4. \<open>decode\<close> checks the exact length that each tag requires and fails with a decode
  error on every other buffer: the empty buffer, a first byte other than \<open>0x01\<close>,
  \<open>0x02\<close>, \<open>0x03\<close>, a length other than 9 under tag \<open>0x01\<close>, a length other than 5
  under tag \<open>0x03\<close>. It returns a message exactly on the well-formed buffers, and it
  never reads outside the buffer.
\<close>

theorem decode_validates_length:
  "(bytes = [] \<longrightarrow> decode bytes = Inl EmptyMessage)
 \<and> (bytes \<noteq> [] \<and> hd bytes \<notin> {1, 2, 3}
      \<longrightarrow> decode bytes = Inl (UnknownMessageType (uint (hd bytes))))
 \<and> (bytes \<noteq> [] \<and> hd bytes = 1 \<and> length bytes \<noteq> 9
      \<longrightarrow> decode bytes = Inl InvalidInputPairLength)
 \<and> (bytes \<noteq> [] \<and> hd bytes = 3 \<and> length bytes \<noteq> 5
      \<longrightarrow> decode bytes = Inl InvalidPingLength)
 \<and> (\<not> isl (decode bytes) \<longleftrightarrow> spec_well_formed bytes)
 \<and> decode bytes \<noteq> Inl RangeError"
proof (cases bytes)
  case Nil
  then show ?thesis by (simp add: decode_Nil spec_well_formed_def)
next
  case (Cons tag payload)
  then show ?thesis by (simp add: decode_Cons spec_well_formed_def)
qed

theorem decode_validates_length_witness:
  "decode [] = Inl EmptyMessage
 \<and> decode [7, 1] = Inl (UnknownMessageType 7)
 \<and> decode [1, 0, 0] = Inl InvalidInputPairLength
 \<and> decode [3, 0, 0, 0, 0, 0] = Inl InvalidPingLength
 \<and> spec_well_formed [2, 9, 9] \<and> \<not> isl (decode [2, 9, 9])
 \<and> \<not> spec_well_formed [3, 0] \<and> isl (decode [3, 0])"
  using decode_validates_length [of "[]"] decode_validates_length [of "[7, 1]"]
    decode_validates_length [of "[1, 0, 0]"] decode_validates_length [of "[3, 0, 0, 0, 0, 0]"]
    decode_validates_length [of "[2, 9, 9]"] decode_validates_length [of "[3, 0]"]
  by (simp add: spec_well_formed_def)

section \<open>Properties of the lockstep engine\<close>

subsection \<open>What one call of \<open>tick\<close> does\<close>

lemma tick_not_running:
  "\<not> isRunning s \<Longrightarrow> tick ops s = ((viewJson ops (core s), []), s)"
  by (simp add: tick_def)

lemma tick_waiting:
  "localInputBuffer s (currentTick s) = None \<or> remoteInputBuffer s (currentTick s) = None
   \<Longrightarrow> tick ops s = ((viewJson ops (core s), []), s)"
  by (auto simp: tick_def split: option.splits)

lemma tick_advance:
  assumes "isRunning s"
    and "localInputBuffer s (currentTick s) \<noteq> None"
    and "remoteInputBuffer s (currentTick s) \<noteq> None"
  shows "snd (tick ops s) =
           s\<lparr>core := replay ops [stepArgs s (currentTick s)] (core s),
             stepCalls := stepCalls s @ [stepArgs s (currentTick s)],
             localInputBuffer := (localInputBuffer s)(currentTick s := None),
             remoteInputBuffer := (remoteInputBuffer s)(currentTick s := None),
             currentTick := currentTick s + 1\<rparr>"
    and "fst (fst (tick ops s)) = viewJson ops (replay ops [stepArgs s (currentTick s)] (core s))"
  using assms
  by (auto simp: tick_def stepArgs_def Let_def split: option.splits prod.splits)

subsection \<open>The buffers of an engine that is not running\<close>

lemma idle_new: "idle_buffers_empty (new_Lockstep ops g side)"
  by (simp add: idle_buffers_empty_def new_Lockstep_def)

lemma idle_apply_call:
  "idle_buffers_empty s \<Longrightarrow> idle_buffers_empty (apply_call ops s c)"
proof (cases c)
  case CallTick
  assume "idle_buffers_empty s"
  then show ?thesis
    unfolding CallTick
    by (auto simp: idle_buffers_empty_def tick_def Let_def split: option.splits prod.splits)
next
  case (CallOnNetMessage bytes)
  assume "idle_buffers_empty s"
  then show ?thesis
    unfolding CallOnNetMessage
    by (auto simp: idle_buffers_empty_def onNetMessage_def onNetMessage_try_def Let_def
          transport_send_def split: sum.splits WireMsg.splits Thrown.splits)
qed (auto simp: idle_buffers_empty_def keep_on_error_def start_def stop_def onLocalInput_def
       requestSnapshot_def ping_def transport_send_def Let_def split: sum.splits)

lemma idle_run:
  "idle_buffers_empty s \<Longrightarrow> idle_buffers_empty (run ops s calls)"
  by (induction calls arbitrary: s) (simp_all add: idle_apply_call)

lemma reachable_idle:
  "idle_buffers_empty (run ops (new_Lockstep ops g side) calls)"
  by (rule idle_run) (rule idle_new)

text \<open>
  C1. In every reachable state, a call of \<open>tick\<close> changes the tick cursor only if both
  buffers hold an entry for the current tick at the time of the call. When both hold one,
  the cursor advances by exactly one, both entries for that tick are removed and
  \<open>core.step\<close> is called once, with that tick and the two buffered inputs; otherwise the
  state is unchanged. In both cases the view returned is the one of the core after the call.
\<close>

theorem tick_advances_iff_both_inputs:
  assumes "s = run ops (new_Lockstep ops gameAdapter side) calls"
    and "tick ops s = ((view, events), s')"
  shows
   "(currentTick s' \<noteq> currentTick s \<longrightarrow>
       localInputBuffer s (currentTick s) \<noteq> None \<and> remoteInputBuffer s (currentTick s) \<noteq> None)
  \<and> (localInputBuffer s (currentTick s) \<noteq> None \<and> remoteInputBuffer s (currentTick s) \<noteq> None \<longrightarrow>
       currentTick s' = currentTick s + 1
     \<and> localInputBuffer s' = (localInputBuffer s)(currentTick s := None)
     \<and> remoteInputBuffer s' = (remoteInputBuffer s)(currentTick s := None)
     \<and> stepCalls s' = stepCalls s @ [stepArgs s (currentTick s)]
     \<and> core s' = replay ops [stepArgs s (currentTick s)] (core s))
  \<and> (localInputBuffer s (currentTick s) = None \<or> remoteInputBuffer s (currentTick s) = None \<longrightarrow>
       s' = s)
  \<and> view = viewJson ops (core s')"
proof -
  have idle: "idle_buffers_empty s"
    unfolding assms(1) by (rule reachable_idle)
  show ?thesis
  proof (cases "localInputBuffer s (currentTick s) \<noteq> None
              \<and> remoteInputBuffer s (currentTick s) \<noteq> None")
    case True
    then have run: "isRunning s" using idle by (auto simp: idle_buffers_empty_def)
    from tick_advance [OF run, of ops] True assms(2) show ?thesis by auto
  next
    case False
    then have "tick ops s = ((viewJson ops (core s), []), s)"
      by (intro tick_waiting) simp
    with assms(2) False show ?thesis by auto
  qed
qed

theorem tick_advances_iff_both_inputs_witness:
  "currentTick (snd (tick counter_core (run counter_core (new_Lockstep counter_core 0 Left)
      [CallStart True, CallOnLocalInput 5 1,
       CallOnNetMessage (encodeInputPair
         \<lparr>ip_tick = 0, ip_a = \<lparr>axis_y = 0, buttons = 0\<rparr>,
          ip_b = \<lparr>axis_y = 3, buttons = 2\<rparr>\<rparr>)]))) = 1
 \<and> stepCalls (snd (tick counter_core (run counter_core (new_Lockstep counter_core 0 Left)
      [CallStart True, CallOnLocalInput 5 1,
       CallOnNetMessage (encodeInputPair
         \<lparr>ip_tick = 0, ip_a = \<lparr>axis_y = 0, buttons = 0\<rparr>,
          ip_b = \<lparr>axis_y = 3, buttons = 2\<rparr>\<rparr>)]))) = [(0, 5, 1, 3, 2)]"
proof -
  let ?p = "\<lparr>ip_tick = 0, ip_a = \<lparr>axis_y = 0, buttons = 0\<rparr>,
             ip_b = \<lparr>axis_y = 3, buttons = 2\<rparr>\<rparr>"
  let ?calls = "[CallStart True, CallOnLocalInput 5 1, CallOnNetMessage (encodeInputPair ?p)]"
  let ?s = "run counter_core (new_Lockstep counter_core 0 Left) ?calls"
  have d: "decode (encodeInputPair ?p) = Inr (MsgInputPair ?p)"
    by (rule decode_encodeInputPair) (simp add: valid_InputPair_def valid_Input_def valid_u32_def)
  have s: "?s = \<lparr>core = 0, currentTick = 0, localSide = Left, isRunning = True,
       localInputBuffer = [0 \<mapsto> \<lparr>axis_y = 5, buttons = 1\<rparr>],
       remoteInputBuffer = [0 \<mapsto> \<lparr>axis_y = 3, buttons = 2\<rparr>],
       sendCalls = [encodeInputPair \<lparr>ip_tick = 0, ip_a = \<lparr>axis_y = 5, buttons = 1\<rparr>,
                      ip_b = \<lparr>axis_y = 0, buttons = 0\<rparr>\<rparr>],
       stepCalls = []\<rparr>"
    by (simp add: new_Lockstep_def counter_core_def keep_on_error_def start_def
          onLocalInput_def transport_send_def onNetMessage_def onNetMessage_try_def d Let_def)
  show ?thesis
    using tick_advances_iff_both_inputs [of ?s counter_core 0 Left ?calls
        "fst (fst (tick counter_core ?s))" "snd (fst (tick counter_core ?s))"
        "snd (tick counter_core ?s)"]
    unfolding s by (simp add: stepArgs_def)
qed

subsection \<open>Local input\<close>

text \<open>
  C5. The claim asks that \<open>onLocalInput\<close> leave an entry that the local buffer already
  holds for the current tick as it is. The code stores the new input under the current
  tick with no test for an existing entry, and so changes an input after it has been
  submitted and sent for that tick. Two peers at tick 0, with the same core:

  \<^item> peer A (left) submits \<open>(5, 1)\<close> and sends it; its \<open>tick\<close> waits, the remote input
    being absent; on the next frame it submits \<open>(7, 0)\<close> for the same tick, which
    replaces \<open>(5, 1)\<close> in its buffer;
  \<^item> peer B (right) submits \<open>(9, 0)\<close>, receives the first message of A and steps tick 0
    with \<open>(5, 1)\<close> for the left side;
  \<^item> peer A then receives the message of B and steps tick 0 with \<open>(7, 0)\<close> for the
    left side.

  The two simulations have stepped the same tick with different inputs.
\<close>

theorem onLocalInput_overwrite_desync:
  "localInputBuffer (run counter_core (new_Lockstep counter_core 0 Left)
       [CallStart True, CallOnLocalInput 5 1, CallTick]) 0
     = Some \<lparr>axis_y = 5, buttons = 1\<rparr>
 \<and> currentTick (run counter_core (new_Lockstep counter_core 0 Left)
       [CallStart True, CallOnLocalInput 5 1, CallTick]) = 0
 \<and> localInputBuffer (run counter_core (new_Lockstep counter_core 0 Left)
       [CallStart True, CallOnLocalInput 5 1, CallTick, CallOnLocalInput 7 0]) 0
     = Some \<lparr>axis_y = 7, buttons = 0\<rparr>
 \<and> sendCalls (run counter_core (new_Lockstep counter_core 0 Left)
       [CallStart True, CallOnLocalInput 5 1])
     = [encodeInputPair \<lparr>ip_tick = 0, ip_a = \<lparr>axis_y = 5, buttons = 1\<rparr>,
                          ip_b = \<lparr>axis_y = 0, buttons = 0\<rparr>\<rparr>]
 \<and> sendCalls (run counter_core (new_Lockstep counter_core 0 Right)
       [CallStart True, CallOnLocalInput 9 0])
     = [encodeInputPair \<lparr>ip_tick = 0, ip_a = \<lparr>axis_y = 0, buttons = 0\<rparr>,
                          ip_b = \<lparr>axis_y = 9, buttons = 0\<rparr>\<rparr>]
 \<and> stepCalls (run counter_core (new_Lockstep counter_core 0 Right)
       [CallStart True, CallOnLocalInput 9 0,
        CallOnNetMessage (encodeInputPair
          \<lparr>ip_tick = 0, ip_a = \<lparr>axis_y = 5, buttons = 1\<rparr>,
           ip_b = \<lparr>axis_y = 0, buttons = 0\<rparr>\<rparr>),
        CallTick])
     = [(0, 5, 1, 9, 0)]
 \<and> stepCalls (run counter_core (new_Lockstep counter_core 0 Left)
       [CallStart True, CallOnLocalInput 5 1, CallTick, CallOnLocalInput 7 0,
        CallOnNetMessage (encodeInputPair
          \<lparr>ip_tick = 0, ip_a = \<lparr>axis_y = 0, buttons = 0\<rparr>,
           ip_b = \<lparr>axis_y = 9, buttons = 0\<rparr>\<rparr>),
        CallTick])
     = [(0, 7, 0, 9, 0)]"
proof -
  have dA: "decode (encodeInputPair \<lparr>ip_tick = 0, ip_a = \<lparr>axis_y = 5, buttons = 1\<rparr>,
                ip_b = \<lparr>axis_y = 0, buttons = 0\<rparr>\<rparr>)
            = Inr (MsgInputPair \<lparr>ip_tick = 0, ip_a = \<lparr>axis_y = 5, buttons = 1\<rparr>,
                ip_b = \<lparr>axis_y = 0, buttons = 0\<rparr>\<rparr>)"
    by (rule decode_encodeInputPair) (simp add: valid_InputPair_def valid_Input_def valid_u32_def)
  have dB: "decode (encodeInputPair \<lparr>ip_tick = 0, ip_a = \<lparr>axis_y = 0, buttons = 0\<rparr>,
                ip_b = \<lparr>axis_y = 9, buttons = 0\<rparr>\<rparr>)
            = Inr (MsgInputPair \<lparr>ip_tick = 0, ip_a = \<lparr>axis_y = 0, buttons = 0\<rparr>,
                ip_b = \<lparr>axis_y = 9, buttons = 0\<rparr>\<rparr>)"
    by (rule decode_encodeInputPair) (simp add: valid_InputPair_def valid_Input_def valid_u32_def)
  show ?thesis
    by (simp add: new_Lockstep_def counter_core_def keep_on_error_def start_def
          onLocalInput_def transport_send_def onNetMessage_def onNetMessage_try_def
          tick_def dA dB Let_def)
qed

subsection \<open>Messages from the network\<close>

lemma decode_fails_iff: "isl (decode bytes) \<longleftrightarrow> \<not> spec_well_formed bytes"
  by (cases bytes) (simp_all add: decode_Nil decode_Cons spec_well_formed_def)

lemma running_state:
  "run counter_core (new_Lockstep counter_core 0 Left) [CallStart True] =
     \<lparr>core = 0, currentTick = 0, localSide = Left, isRunning = True,
      localInputBuffer = Map.empty, remoteInputBuffer = Map.empty,
      sendCalls = [], stepCalls = []\<rparr>"
  by (simp add: new_Lockstep_def counter_core_def keep_on_error_def start_def)





text \<open>
  C7. A buffer on which \<open>decode\<close> fails, delivered to a running engine, is one of the
  malformed buffers (empty, unknown tag, wrong length under tag \<open>0x01\<close> or \<open>0x03\<close>);
  the exception is raised inside the \<open>try\<close> block and caught there, the call returns no
  events, and the state, with the tick cursor and both buffers, is exactly as before.
\<close>

theorem onNetMessage_decode_error_discarded:
  assumes "isRunning s" and "isl (decode bytes)"
  shows "\<not> spec_well_formed bytes
    \<and> isl (onNetMessage_try ops s bytes)
    \<and> onNetMessage ops s bytes = ([], s)"
  using assms decode_fails_iff [of bytes]
  by (auto simp: onNetMessage_def onNetMessage_try_def split: sum.splits)

theorem onNetMessage_decode_error_discarded_witness:
  "isRunning (run counter_core (new_Lockstep counter_core 0 Left) [CallStart True])
 \<and> isl (decode [1, 0, 0])
 \<and> onNetMessage counter_core
      (run counter_core (new_Lockstep counter_core 0 Left) [CallStart True]) [1, 0, 0] =
     ([], run counter_core (new_Lockstep counter_core 0 Left) [CallStart True])"
  using onNetMessage_decode_error_discarded
    [of "run counter_core (new_Lockstep counter_core 0 Left) [CallStart True]"
        "[1, 0, 0]" counter_core]
  unfolding running_state by (simp add: decode_Cons)

text \<open>
  C9. Two input-pair messages with the same tick and the same input in the field of the
  remote side have the same effect on the same state, whatever their fields of the local
  side hold: on a running engine the input of the remote side is stored in the remote
  buffer under the tick of the message, and nothing else changes.
\<close>

theorem onNetMessage_ignores_own_field:
  assumes "decode bytes1 = Inr (MsgInputPair p1)"
    and "decode bytes2 = Inr (MsgInputPair p2)"
    and "ip_tick p1 = ip_tick p2"
    and "if localSide s = Left then ip_b p1 = ip_b p2 else ip_a p1 = ip_a p2"
  shows "onNetMessage ops s bytes1 = onNetMessage ops s bytes2
    \<and> (isRunning s \<longrightarrow>
         onNetMessage ops s bytes1 =
           ([], s\<lparr>remoteInputBuffer := (remoteInputBuffer s)
                   (ip_tick p1 \<mapsto> (if localSide s = Left then ip_b p1 else ip_a p1))\<rparr>))"
  using assms by (simp add: onNetMessage_def onNetMessage_try_def Let_def split: if_splits)

theorem onNetMessage_ignores_own_field_witness:
  "decode [1, 4, 0, 0, 0, 9, 9, 3, 2] =
     Inr (MsgInputPair \<lparr>ip_tick = 4, ip_a = \<lparr>axis_y = 9, buttons = 9\<rparr>,
                         ip_b = \<lparr>axis_y = 3, buttons = 2\<rparr>\<rparr>)
 \<and> decode [1, 4, 0, 0, 0, 0, 0, 3, 2] =
     Inr (MsgInputPair \<lparr>ip_tick = 4, ip_a = \<lparr>axis_y = 0, buttons = 0\<rparr>,
                         ip_b = \<lparr>axis_y = 3, buttons = 2\<rparr>\<rparr>)
 \<and> onNetMessage counter_core
      (run counter_core (new_Lockstep counter_core 0 Left) [CallStart True])
      [1, 4, 0, 0, 0, 9, 9, 3, 2] =
    onNetMessage counter_core
      (run counter_core (new_Lockstep counter_core 0 Left) [CallStart True])
      [1, 4, 0, 0, 0, 0, 0, 3, 2]
 \<and> onNetMessage counter_core
      (run counter_core (new_Lockstep counter_core 0 Left) [CallStart True])
      [1, 4, 0, 0, 0, 9, 9, 3, 2] =
     ([], \<lparr>core = 0, currentTick = 0, localSide = Left, isRunning = True,
           localInputBuffer = Map.empty,
           remoteInputBuffer = [4 \<mapsto> \<lparr>axis_y = 3, buttons = 2\<rparr>],
           sendCalls = [], stepCalls = []\<rparr>)"
proof -
  have d1: "decode [1, 4, 0, 0, 0, 9, 9, 3, 2] =
     Inr (MsgInputPair \<lparr>ip_tick = 4, ip_a = \<lparr>axis_y = 9, buttons = 9\<rparr>,
                         ip_b = \<lparr>axis_y = 3, buttons = 2\<rparr>\<rparr>)"
    by (simp add: decode_Cons)
  have d2: "decode [1, 4, 0, 0, 0, 0, 0, 3, 2] =
     Inr (MsgInputPair \<lparr>ip_tick = 4, ip_a = \<lparr>axis_y = 0, buttons = 0\<rparr>,
                         ip_b = \<lparr>axis_y = 3, buttons = 2\<rparr>\<rparr>)"
    by (simp add: decode_Cons)
  note both = onNetMessage_ignores_own_field [OF d1 d2,
        of "run counter_core (new_Lockstep counter_core 0 Left) [CallStart True]" counter_core,
        unfolded running_state, simplified]
  from both have same: "onNetMessage counter_core
      \<lparr>core = 0, currentTick = 0, localSide = Left, isRunning = True,
       localInputBuffer = Map.empty, remoteInputBuffer = Map.empty,
       sendCalls = [], stepCalls = []\<rparr> [1, 4, 0, 0, 0, 0, 0, 3, 2] =
     ([], \<lparr>core = 0, currentTick = 0, localSide = Left, isRunning = True,
           localInputBuffer = Map.empty,
           remoteInputBuffer = [4 \<mapsto> \<lparr>axis_y = 3, buttons = 2\<rparr>],
           sendCalls = [], stepCalls = []\<rparr>)"
    by (elim conjE) (erule subst)
  show ?thesis
    unfolding running_state using both same by (simp add: d1 d2)
qed

text \<open>
  C10. A buffer delivered while the engine is not running has no effect: the call returns
  no events and the state it leaves is the state it found, so the buffers, the tick
  cursor and the core are unchanged, nothing is restored and nothing is sent. This is the
  case in the state the constructor builds and in every state \<open>stop\<close> leaves.
\<close>

theorem onNetMessage_not_running_no_effect:
  "(\<not> isRunning s \<longrightarrow> onNetMessage ops s bytes = ([], s))
 \<and> onNetMessage ops (new_Lockstep ops gameAdapter side) bytes
      = ([], new_Lockstep ops gameAdapter side)
 \<and> onNetMessage ops (stop s) bytes = ([], stop s)"
  by (simp add: onNetMessage_def new_Lockstep_def stop_def)

theorem onNetMessage_not_running_no_effect_witness:
  "\<not> isRunning (run counter_core (new_Lockstep counter_core 0 Left) [CallStart False])
 \<and> decode [3, 1, 0, 0, 0] = Inr (MsgPing 1)
 \<and> onNetMessage counter_core
      (run counter_core (new_Lockstep counter_core 0 Left) [CallStart False]) [3, 1, 0, 0, 0] =
     ([], run counter_core (new_Lockstep counter_core 0 Left) [CallStart False])"
proof -
  have s: "run counter_core (new_Lockstep counter_core 0 Left) [CallStart False] =
     \<lparr>core = 0, currentTick = 0, localSide = Left, isRunning = False,
      localInputBuffer = Map.empty, remoteInputBuffer = Map.empty,
      sendCalls = [], stepCalls = []\<rparr>"
    by (simp add: new_Lockstep_def counter_core_def keep_on_error_def start_def)
  have d: "decode [3, 1, 0, 0, 0] = Inr (MsgPing 1)"
    by (simp add: decode_Cons)
  show ?thesis
    using onNetMessage_not_running_no_effect
      [of "run counter_core (new_Lockstep counter_core 0 Left) [CallStart False]"
          counter_core "[3, 1, 0, 0, 0]" 0 Left]
    unfolding s by (simp add: d)
qed

subsection \<open>Repeated calls of \<open>tick\<close>\<close>

lemma replay_Cons: "replay ops (x # xs) g = replay ops xs (replay ops [x] g)"
  by (cases x) simp

lemma tick_repeat_stalled:
  assumes "localInputBuffer s (currentTick s) = None \<or> remoteInputBuffer s (currentTick s) = None"
  shows "tick_repeat ops m s = s"
  using assms by (induction m) (simp_all add: tick_waiting)

lemma tick_repeat_add:
  "tick_repeat ops (m + n) s = tick_repeat ops n (tick_repeat ops m s)"
  by (induction m arbitrary: s) simp_all

lemma upto_shift: "k > 0 \<Longrightarrow> [t .. t + int k - 1] = t # [t + 1 .. t + 1 + int (k - 1) - 1]"
  by (cases k) (simp_all add: upto_rec1 algebra_simps)

lemma catch_up_steps:
  assumes "isRunning s"
    and "\<forall>t. currentTick s \<le> t \<and> t < currentTick s + int k \<longrightarrow>
           localInputBuffer s t \<noteq> None \<and> remoteInputBuffer s t \<noteq> None"
  shows "currentTick (tick_repeat ops k s) = currentTick s + int k
    \<and> stepCalls (tick_repeat ops k s) =
           stepCalls s @ map (stepArgs s) [currentTick s .. currentTick s + int k - 1]
    \<and> core (tick_repeat ops k s) =
           replay ops (map (stepArgs s) [currentTick s .. currentTick s + int k - 1]) (core s)
    \<and> isRunning (tick_repeat ops k s)
    \<and> (\<forall>t. localInputBuffer (tick_repeat ops k s) t =
           (if currentTick s \<le> t \<and> t < currentTick s + int k then None
            else localInputBuffer s t))
    \<and> (\<forall>t. remoteInputBuffer (tick_repeat ops k s) t =
           (if currentTick s \<le> t \<and> t < currentTick s + int k then None
            else remoteInputBuffer s t))"
  using assms
proof (induction k arbitrary: s)
  case 0
  then show ?case by auto
next
  case (Suc k)
  let ?T = "currentTick s"
  let ?s1 = "snd (tick ops s)"
  note run = Suc.prems(1) and pre = Suc.prems(2)
  have both: "localInputBuffer s ?T \<noteq> None" "remoteInputBuffer s ?T \<noteq> None"
    using pre by simp_all
  note s1 = tick_advance(1) [OF run both, of ops]
  have run1: "isRunning ?s1" and T1: "currentTick ?s1 = ?T + 1"
    using run by (simp_all add: s1)
  have pres: "\<forall>t. currentTick ?s1 \<le> t \<and> t < currentTick ?s1 + int k \<longrightarrow>
           localInputBuffer ?s1 t \<noteq> None \<and> remoteInputBuffer ?s1 t \<noteq> None"
    using pre by (simp add: s1)
  have args: "map (stepArgs ?s1) [?T + 1 .. ?T + 1 + int k - 1]
            = map (stepArgs s) [?T + 1 .. ?T + 1 + int k - 1]"
    by (rule map_cong) (simp_all add: s1 stepArgs_def)
  have up: "[?T .. ?T + int (Suc k) - 1] = ?T # [?T + 1 .. ?T + 1 + int k - 1]"
    using upto_shift [of "Suc k" ?T] by simp
  note ih = Suc.IH [OF run1 pres, unfolded T1 args]
  have c1: "currentTick (tick_repeat ops (Suc k) s) = ?T + int (Suc k)"
    using ih by simp
  have c2: "stepCalls (tick_repeat ops (Suc k) s) =
         stepCalls s @ map (stepArgs s) [?T .. ?T + int (Suc k) - 1]"
    unfolding up using ih by (simp add: s1)
  have c3: "core (tick_repeat ops (Suc k) s) =
         replay ops (map (stepArgs s) [?T .. ?T + int (Suc k) - 1]) (core s)"
  proof -
    have "core (tick_repeat ops (Suc k) s) =
          replay ops (map (stepArgs s) [?T + 1 .. ?T + 1 + int k - 1])
            (replay ops [stepArgs s ?T] (core s))"
      using ih by (simp add: s1)
    also have "\<dots> = replay ops (stepArgs s ?T # map (stepArgs s) [?T + 1 .. ?T + 1 + int k - 1])
            (core s)"
      by (rule replay_Cons [symmetric])
    finally show ?thesis unfolding up by simp
  qed
  have c4: "isRunning (tick_repeat ops (Suc k) s)"
    using ih by simp
  have c5: "\<forall>t. localInputBuffer (tick_repeat ops (Suc k) s) t =
         (if ?T \<le> t \<and> t < ?T + int (Suc k) then None else localInputBuffer s t)"
    using ih by (auto simp: s1)
  have c6: "\<forall>t. remoteInputBuffer (tick_repeat ops (Suc k) s) t =
         (if ?T \<le> t \<and> t < ?T + int (Suc k) then None else remoteInputBuffer s t)"
    using ih by (auto simp: s1)
  from c1 c2 c3 c4 c5 c6 show ?case by blast
qed

lemma catch_up_prefix:
  assumes "s = run ops (new_Lockstep ops gameAdapter side) calls"
    and "\<forall>t. currentTick s \<le> t \<and> t < currentTick s + int N \<longrightarrow>
           localInputBuffer s t \<noteq> None \<and> remoteInputBuffer s t \<noteq> None"
    and "k \<le> N"
  shows "currentTick (tick_repeat ops k s) = currentTick s + int k"
    and "stepCalls (tick_repeat ops k s) =
           stepCalls s @ map (stepArgs s) [currentTick s .. currentTick s + int k - 1]"
    and "core (tick_repeat ops k s) =
           replay ops (map (stepArgs s) [currentTick s .. currentTick s + int k - 1]) (core s)"
    and "\<forall>t. localInputBuffer (tick_repeat ops k s) t =
           (if currentTick s \<le> t \<and> t < currentTick s + int k then None
            else localInputBuffer s t)"
    and "\<forall>t. remoteInputBuffer (tick_repeat ops k s) t =
           (if currentTick s \<le> t \<and> t < currentTick s + int k then None
            else remoteInputBuffer s t)"
proof -
  have all: "currentTick (tick_repeat ops k s) = currentTick s + int k
    \<and> stepCalls (tick_repeat ops k s) =
           stepCalls s @ map (stepArgs s) [currentTick s .. currentTick s + int k - 1]
    \<and> core (tick_repeat ops k s) =
           replay ops (map (stepArgs s) [currentTick s .. currentTick s + int k - 1]) (core s)
    \<and> (\<forall>t. localInputBuffer (tick_repeat ops k s) t =
           (if currentTick s \<le> t \<and> t < currentTick s + int k then None
            else localInputBuffer s t))
    \<and> (\<forall>t. remoteInputBuffer (tick_repeat ops k s) t =
           (if currentTick s \<le> t \<and> t < currentTick s + int k then None
            else remoteInputBuffer s t))"
  proof (cases "k = 0")
    case True
    then show ?thesis by auto
  next
    case False
    then have "0 < N" using assms(3) by simp
    then have "localInputBuffer s (currentTick s) \<noteq> None" using assms(2) by simp
    moreover have "idle_buffers_empty s" unfolding assms(1) by (rule reachable_idle)
    ultimately have run: "isRunning s" by (auto simp: idle_buffers_empty_def)
    have pre: "\<forall>t. currentTick s \<le> t \<and> t < currentTick s + int k \<longrightarrow>
           localInputBuffer s t \<noteq> None \<and> remoteInputBuffer s t \<noteq> None"
      using assms(2,3) by simp
    from catch_up_steps [OF run pre] show ?thesis by blast
  qed
  from all show "currentTick (tick_repeat ops k s) = currentTick s + int k" by blast
  from all show "stepCalls (tick_repeat ops k s) =
           stepCalls s @ map (stepArgs s) [currentTick s .. currentTick s + int k - 1]" by blast
  from all show "core (tick_repeat ops k s) =
           replay ops (map (stepArgs s) [currentTick s .. currentTick s + int k - 1]) (core s)"
    by blast
  from all show "\<forall>t. localInputBuffer (tick_repeat ops k s) t =
           (if currentTick s \<le> t \<and> t < currentTick s + int k then None
            else localInputBuffer s t)" by blast
  from all show "\<forall>t. remoteInputBuffer (tick_repeat ops k s) t =
           (if currentTick s \<le> t \<and> t < currentTick s + int k then None
            else remoteInputBuffer s t)" by blast
qed

text \<open>
  C8. Catch-up. In a reachable state whose cursor is \<open>T\<close> and whose two buffers both
  hold entries for the ticks \<open>T, ..., T+N-1\<close> (the buffers are maps, so the order in
  which the entries arrived plays no part), the first \<open>N\<close> calls of \<open>tick\<close> each
  advance: after \<open>k \<le> N\<close> calls the cursor is \<open>T+k\<close> and \<open>core.step\<close> has been
  called exactly for the ticks \<open>T, ..., T+k-1\<close>, once each, in increasing order, with the
  inputs buffered for them. If no pair of inputs is buffered for \<open>T+N\<close>, further calls
  change nothing, so the cursor advances exactly \<open>N\<close> times and stays at \<open>T+N\<close>.
\<close>

theorem catch_up:
  assumes "s = run ops (new_Lockstep ops gameAdapter side) calls"
    and "\<forall>t. currentTick s \<le> t \<and> t < currentTick s + int N \<longrightarrow>
           localInputBuffer s t \<noteq> None \<and> remoteInputBuffer s t \<noteq> None"
  shows "(\<forall>k \<le> N.
            currentTick (tick_repeat ops k s) = currentTick s + int k
          \<and> stepCalls (tick_repeat ops k s) =
              stepCalls s @ map (stepArgs s) [currentTick s .. currentTick s + int k - 1]
          \<and> core (tick_repeat ops k s) =
              replay ops (map (stepArgs s) [currentTick s .. currentTick s + int k - 1]) (core s))
    \<and> (localInputBuffer s (currentTick s + int N) = None
         \<or> remoteInputBuffer s (currentTick s + int N) = None
        \<longrightarrow> (\<forall>m \<ge> N. tick_repeat ops m s = tick_repeat ops N s))"
proof (intro conjI allI impI)
  fix k assume "k \<le> N"
  from catch_up_prefix(1) [OF assms this]
  show "currentTick (tick_repeat ops k s) = currentTick s + int k" .
  from catch_up_prefix(2) [OF assms \<open>k \<le> N\<close>]
  show "stepCalls (tick_repeat ops k s) =
              stepCalls s @ map (stepArgs s) [currentTick s .. currentTick s + int k - 1]" .
  from catch_up_prefix(3) [OF assms \<open>k \<le> N\<close>]
  show "core (tick_repeat ops k s) =
              replay ops (map (stepArgs s) [currentTick s .. currentTick s + int k - 1]) (core s)" .
next
  fix m
  assume stall: "localInputBuffer s (currentTick s + int N) = None
         \<or> remoteInputBuffer s (currentTick s + int N) = None"
    and "N \<le> m"
  let ?sN = "tick_repeat ops N s"
  have T: "currentTick ?sN = currentTick s + int N"
    by (rule catch_up_prefix(1) [OF assms order_refl])
  have "localInputBuffer ?sN (currentTick ?sN) = localInputBuffer s (currentTick s + int N)"
    using catch_up_prefix(4) [OF assms order_refl] unfolding T by simp
  moreover
  have "remoteInputBuffer ?sN (currentTick ?sN) = remoteInputBuffer s (currentTick s + int N)"
    using catch_up_prefix(5) [OF assms order_refl] unfolding T by simp
  ultimately have "localInputBuffer ?sN (currentTick ?sN) = None
      \<or> remoteInputBuffer ?sN (currentTick ?sN) = None"
    using stall by simp
  then have "tick_repeat ops (m - N) ?sN = ?sN" by (rule tick_repeat_stalled)
  moreover have "tick_repeat ops m s = tick_repeat ops (m - N) ?sN"
    using tick_repeat_add [of ops N "m - N" s] \<open>N \<le> m\<close> by simp
  ultimately show "tick_repeat ops m s = ?sN" by simp
qed


lemma catch_up_state:
  "run counter_core (new_Lockstep counter_core 0 Left) catch_up_history =
     \<lparr>core = 0, currentTick = 0, localSide = Left, isRunning = True,
      localInputBuffer = [0 \<mapsto> \<lparr>axis_y = 5, buttons = 1\<rparr>, 1 \<mapsto> \<lparr>axis_y = 6, buttons = 0\<rparr>],
      remoteInputBuffer = [1 \<mapsto> \<lparr>axis_y = 4, buttons = 1\<rparr>, 0 \<mapsto> \<lparr>axis_y = 3, buttons = 2\<rparr>],
      sendCalls =
        [encodeInputPair \<lparr>ip_tick = 0, ip_a = \<lparr>axis_y = 5, buttons = 1\<rparr>,
                          ip_b = \<lparr>axis_y = 0, buttons = 0\<rparr>\<rparr>,
         encodeInputPair \<lparr>ip_tick = 1, ip_a = \<lparr>axis_y = 6, buttons = 0\<rparr>,
                          ip_b = \<lparr>axis_y = 0, buttons = 0\<rparr>\<rparr>],
      stepCalls = []\<rparr>"
  by (simp add: catch_up_history_def new_Lockstep_def counter_core_def keep_on_error_def
        start_def onLocalInput_def transport_send_def onNetMessage_def onNetMessage_try_def
        decode_Cons Let_def)

theorem catch_up_witness:
  "currentTick (tick_repeat counter_core 2
      (run counter_core (new_Lockstep counter_core 0 Left) catch_up_history)) = 2
 \<and> stepCalls (tick_repeat counter_core 2
      (run counter_core (new_Lockstep counter_core 0 Left) catch_up_history))
     = [(0, 5, 1, 3, 2), (1, 6, 0, 4, 1)]
 \<and> core (tick_repeat counter_core 2
      (run counter_core (new_Lockstep counter_core 0 Left) catch_up_history)) = 2
 \<and> tick_repeat counter_core 5
      (run counter_core (new_Lockstep counter_core 0 Left) catch_up_history)
     = tick_repeat counter_core 2
      (run counter_core (new_Lockstep counter_core 0 Left) catch_up_history)"
proof -
  let ?s = "run counter_core (new_Lockstep counter_core 0 Left) catch_up_history"
  have r: "\<And>t::int. (0 \<le> t \<and> t < 2) = (t = 0 \<or> t = 1)" by arith
  have h: "\<forall>t. currentTick ?s \<le> t \<and> t < currentTick ?s + int 2 \<longrightarrow>
           localInputBuffer ?s t \<noteq> None \<and> remoteInputBuffer ?s t \<noteq> None"
    unfolding catch_up_state by (auto simp: r)
  have l: "[0 .. 1::int] = [0, 1]" by (simp add: upto_rec1)
  note c = catch_up [OF refl h]
  note a = c [THEN conjunct1, rule_format, OF order_refl]
  have b: "tick_repeat counter_core 5 ?s = tick_repeat counter_core 2 ?s"
    by (rule c [THEN conjunct2, rule_format]) (simp_all add: catch_up_state)
  have e: "core (tick_repeat counter_core 2 ?s) = 2"
    using a unfolding catch_up_state by (simp add: l stepArgs_def counter_core_def)
  have f: "currentTick (tick_repeat counter_core 2 ?s) = 2"
    "stepCalls (tick_repeat counter_core 2 ?s) = [(0, 5, 1, 3, 2), (1, 6, 0, 4, 1)]"
    using a unfolding catch_up_state by (simp_all add: l stepArgs_def)
  from f e b show ?thesis by (intro conjI)
qed

end
